theory Spec2Isabelle
  imports Complex_Main "HOL-Library.Multiset" "HOL-Library.Word" "HOL-Library.Char_ord"
    "HOL-Library.List_Lexorder"
begin

section \<open>The backend registry (NetworkFactory)\<close>

text \<open>
  The registry keeps a vector \<^verbatim>\<open>factories_\<close> of entries (the field \<open>factories\<close> here: a
  name of the logic cannot end with an underscore). An entry is built by
  \<^verbatim>\<open>factories_.emplace_back(name, factory, priority)\<close> and read through
  \<^verbatim>\<open>x.name\<close> and \<^verbatim>\<open>factory.factory(weights, options)\<close>. The weights, the options
  and the network a factory function builds are type parameters: the registry never looks
  inside them. A factory function is taken to be a pure function of its two arguments.
\<close>

record ('w, 'o, 'n) Factory =
  name :: string
  factory :: "'w \<Rightarrow> 'o \<Rightarrow> 'n"
  priority :: int

record ('w, 'o, 'n) NetworkFactory =
  factories :: "('w, 'o, 'n) Factory list"

datatype Exception = Exception string

text \<open>
  The comparison of two entries (\<^verbatim>\<open>Factory::operator<\<close>) is declared in the header
  \<^verbatim>\<open>neural/factory.h\<close>, which is not among the sources; it is the parameter \<open>lt\<close>
  below. \<^verbatim>\<open>std::sort\<close> requires of it a strict weak ordering.
\<close>

definition strict_weak_order :: "('a \<Rightarrow> 'a \<Rightarrow> bool) \<Rightarrow> bool" where
  "strict_weak_order lt =
     ((\<forall>a. \<not> lt a a) \<and>
      (\<forall>a b c. lt a b \<and> lt b c \<longrightarrow> lt a c) \<and>
      (\<forall>a b c. \<not> lt a b \<and> \<not> lt b a \<and> \<not> lt b c \<and> \<not> lt c b
                 \<longrightarrow> \<not> lt a c \<and> \<not> lt c a))"

text \<open>
  A range is sorted with respect to a comparison when no element is less than one that
  stands before it.
\<close>

definition is_sorted :: "('a \<Rightarrow> 'a \<Rightarrow> bool) \<Rightarrow> 'a list \<Rightarrow> bool" where
  "is_sorted lt xs = sorted_wrt (\<lambda>a b. \<not> lt b a) xs"

text \<open>
  \<^verbatim>\<open>std::sort(first, last)\<close> rearranges the range into a sorted one. The order it gives
  to entries that compare equivalent is not fixed by the language; the model inserts each
  element behind the entries it is not less than, and the theorems below use of the
  result only that it is sorted and holds the same entries.
\<close>

fun sort_insert :: "('a \<Rightarrow> 'a \<Rightarrow> bool) \<Rightarrow> 'a \<Rightarrow> 'a list \<Rightarrow> 'a list" where
  "sort_insert lt x [] = [x]"
| "sort_insert lt x (y # ys) =
     (if lt x y then x # y # ys else y # sort_insert lt x ys)"

fun std_sort :: "('a \<Rightarrow> 'a \<Rightarrow> bool) \<Rightarrow> 'a list \<Rightarrow> 'a list" where
  "std_sort lt [] = []"
| "std_sort lt (x # xs) = sort_insert lt x (std_sort lt xs)"

text \<open>
  \<^verbatim>\<open>
  void NetworkFactory::RegisterNetwork(const std::string& name,
                                       FactoryFunc factory, int priority) {
      factories_.emplace_back(name, factory, priority);
      std::sort(factories_.begin(), factories_.end());
  }
  \<close>
\<close>

definition RegisterNetwork ::
  "(('w, 'o, 'n) Factory \<Rightarrow> ('w, 'o, 'n) Factory \<Rightarrow> bool) \<Rightarrow> ('w, 'o, 'n) NetworkFactory \<Rightarrow>
   string \<Rightarrow> ('w \<Rightarrow> 'o \<Rightarrow> 'n) \<Rightarrow> int \<Rightarrow> ('w, 'o, 'n) NetworkFactory" where
  "RegisterNetwork lt nf nm fn prio =
     nf\<lparr>factories :=
          std_sort lt (factories nf @ [\<lparr>name = nm, factory = fn, priority = prio\<rparr>])\<rparr>"

text \<open>
  \<^verbatim>\<open>
  std::vector<std::string> NetworkFactory::GetBackendsList() const {
      std::vector<std::string> result;
      for (const auto& x : factories_) result.emplace_back(x.name);
      return result;
  }
  \<close>
  The loop carries \<open>result\<close>.
\<close>

fun GetBackendsList_loop :: "('w, 'o, 'n) Factory list \<Rightarrow> string list \<Rightarrow> string list" where
  "GetBackendsList_loop [] result = result"
| "GetBackendsList_loop (x # xs) result = GetBackendsList_loop xs (result @ [name x])"

definition GetBackendsList :: "('w, 'o, 'n) NetworkFactory \<Rightarrow> string list" where
  "GetBackendsList nf = GetBackendsList_loop (factories nf) []"

text \<open>
  \<^verbatim>\<open>
  std::unique_ptr<Network> NetworkFactory::Create(const std::string& network,
                                                  const Weights& weights,
                                                  const OptionsDict& options) {
      std::cerr << "Creating backend [" << network << "]..." << std::endl;
      for (const auto& factory : factories_) {
          if (factory.name == network) {
              return factory.factory(weights, options);
          }
      }
      throw Exception("Unknown backend: " + network);
  }
  \<close>
  The outcome of a call is the line written to \<^verbatim>\<open>std::cerr\<close> (ended by the newline of
  \<^verbatim>\<open>std::endl\<close>), the value returned (\<open>Inr\<close>) or the exception thrown (\<open>Inl\<close>), and the
  registry after the call.
\<close>

fun Create_loop ::
  "('w, 'o, 'n) Factory list \<Rightarrow> string \<Rightarrow> 'w \<Rightarrow> 'o \<Rightarrow> Exception + 'n" where
  "Create_loop [] network weights options =
     Inl (Exception (''Unknown backend: '' @ network))"
| "Create_loop (f # fs) network weights options =
     (if name f = network then Inr (factory f weights options)
      else Create_loop fs network weights options)"

definition Create ::
  "('w, 'o, 'n) NetworkFactory \<Rightarrow> string \<Rightarrow> 'w \<Rightarrow> 'o \<Rightarrow>
   string \<times> (Exception + 'n) \<times> ('w, 'o, 'n) NetworkFactory" where
  "Create nf network weights options =
     (''Creating backend ['' @ network @ '']...'' @ [CHR 0x0A],
      Create_loop (factories nf) network weights options,
      nf)"

text \<open>
  A comparison of the kind the header is expected to declare, used to run the registry on
  concrete entries: the entry of higher priority first, entries of equal priority by name.
\<close>

definition by_priority_then_name ::
  "('w, 'o, 'n) Factory \<Rightarrow> ('w, 'o, 'n) Factory \<Rightarrow> bool" where
  "by_priority_then_name a b =
     (priority b < priority a \<or> (priority a = priority b \<and> name a < name b))"

definition three_backends :: "(nat, nat, nat) NetworkFactory" where
  "three_backends =
     \<lparr>factories =
        [\<lparr>name = ''cudnn'', factory = (\<lambda>w opts. w + opts), priority = 100\<rparr>,
         \<lparr>name = ''blas'', factory = (\<lambda>w opts. w * opts), priority = 50\<rparr>,
         \<lparr>name = ''blas'', factory = (\<lambda>w opts. 0), priority = 50\<rparr>]\<rparr>"

section \<open>Search limits and parameters (search.h)\<close>

text \<open>
  \<^verbatim>\<open>
  struct SearchLimits {
      std::int64_t visits = -1;
      std::int64_t playouts = -1;
      std::int64_t time_ms = -1;
      bool infinite = false;
      MoveList searchmoves;
  };
  \<close>
  The three counters are 64-bit signed integers: words read through \<open>sint\<close>. The type of
  a move is a parameter. The field \<^verbatim>\<open>infinite\<close> is \<open>infinite'\<close> here, the plain name being
  taken by the logic. A default-constructed value takes every default member initialiser,
  and its move list is empty.
\<close>

record 'm SearchLimits =
  visits :: "64 word"
  playouts :: "64 word"
  time_ms :: "64 word"
  infinite' :: bool
  searchmoves :: "'m list"

definition SearchLimits_default :: "'m SearchLimits" where
  "SearchLimits_default =
     \<lparr>visits = - 1, playouts = - 1, time_ms = - 1, infinite' = False, searchmoves = []\<rparr>"

text \<open>
  Modelled from the spec: the body of \<^verbatim>\<open>SearchWorker::IsSearchActive\<close> is not among the
  sources (the header only declares it). The spec lists the limits it tests:
  ``\<^verbatim>\<open>visits >= 0\<close> and \<^verbatim>\<open>total_playouts_ + initial_visits_ >= visits\<close>'',
  ``\<^verbatim>\<open>playouts >= 0\<close> and \<^verbatim>\<open>total_playouts_ >= playouts\<close>'',
  ``\<^verbatim>\<open>time_ms >= 0\<close> and elapsed since \<^verbatim>\<open>start_time_\<close> \<open>\<ge>\<close> \<^verbatim>\<open>time_ms\<close>''.
  \<^verbatim>\<open>total_playouts_\<close>, \<^verbatim>\<open>initial_visits_\<close> and the elapsed time
  (\<^verbatim>\<open>GetTimeSinceStart()\<close>) are \<^verbatim>\<open>int64_t\<close> in the header. The sum is taken over the
  integers: it overflows in no run the language defines.
\<close>

definition visits_limit_reached :: "'m SearchLimits \<Rightarrow> 64 word \<Rightarrow> 64 word \<Rightarrow> bool" where
  "visits_limit_reached limits total_playouts initial_visits =
     (0 \<le> sint (visits limits) \<and>
      sint (visits limits) \<le> sint total_playouts + sint initial_visits)"

text \<open>Modelled from the spec: the playouts test of \<^verbatim>\<open>IsSearchActive\<close>, as quoted above.\<close>

definition playouts_limit_reached :: "'m SearchLimits \<Rightarrow> 64 word \<Rightarrow> bool" where
  "playouts_limit_reached limits total_playouts =
     (0 \<le> sint (playouts limits) \<and> sint (playouts limits) \<le> sint total_playouts)"

text \<open>Modelled from the spec: the time test of \<^verbatim>\<open>IsSearchActive\<close>, as quoted above.\<close>

definition time_limit_reached :: "'m SearchLimits \<Rightarrow> 64 word \<Rightarrow> bool" where
  "time_limit_reached limits elapsed_ms =
     (0 \<le> sint (time_ms limits) \<and> sint (time_ms limits) \<le> sint elapsed_ms)"

text \<open>
  The external parameters of \<^verbatim>\<open>Search\<close> are constant members, set once when the search is
  built from the options:
  \<^verbatim>\<open>
  const int kTempDecayMoves;
  ...
  const bool kCacheHistoryLength;
  \<close>
  The member is a \<^verbatim>\<open>bool\<close>. A number stored into a \<^verbatim>\<open>bool\<close> is converted: zero becomes
  \<^verbatim>\<open>false\<close>, every other value \<^verbatim>\<open>true\<close>; read back as a number, \<^verbatim>\<open>false\<close> is 0 and
  \<^verbatim>\<open>true\<close> is 1.
\<close>

definition kCacheHistoryLength :: "int \<Rightarrow> bool" where
  "kCacheHistoryLength option_value = (option_value \<noteq> 0)"

definition bool_as_number :: "bool \<Rightarrow> int" where
  "bool_as_number b = (if b then 1 else 0)"

section \<open>Best-child selection\<close>

text \<open>
  Modelled from the spec: the edges and nodes of the tree (\<^verbatim>\<open>mcts/node.h\<close>) and the body of
  \<^verbatim>\<open>Search::GetBestChildNoTemperature\<close> (\<^verbatim>\<open>search.cc\<close>) are not among the sources; the
  header only declares the function, with the note that it ``returns a child with most
  visits''. Of a child edge the selection reads the move, the visit count \<open>n\<close> of the child
  (0 for a child not visited) and its mean value \<open>q\<close>. In the program \<open>q\<close> is a
  floating-point number; here it is a real number.
\<close>

record 'm Child =
  child_move :: 'm
  child_n :: nat
  child_q :: real

text \<open>
  Modelled from the spec: ``returns the child with maximum \<open>n\<close>. Ties broken by higher
  \<open>q\<close>, then by edge order.'' A candidate replaces the best child found so far when it has
  more visits, or as many visits and a higher \<open>q\<close>.
\<close>

definition better_child :: "'m Child \<Rightarrow> 'm Child \<Rightarrow> bool" where
  "better_child c best =
     (child_n best < child_n c \<or> (child_n c = child_n best \<and> child_q best < child_q c))"

text \<open>
  Modelled from the spec: the scan of the parent's edges in edge order, carrying the best
  child found so far (none before the first edge).
\<close>

fun GetBestChild_loop :: "'m Child list \<Rightarrow> 'm Child option \<Rightarrow> 'm Child option" where
  "GetBestChild_loop [] best = best"
| "GetBestChild_loop (c # cs) None = GetBestChild_loop cs (Some c)"
| "GetBestChild_loop (c # cs) (Some b) =
     GetBestChild_loop cs (Some (if better_child c b then c else b))"

text \<open>
  Modelled from the spec: \<^verbatim>\<open>GetBestChildNoTemperature(parent)\<close>, the parent given by its
  edges in edge order. A parent without edges has no best child.
\<close>

definition GetBestChildNoTemperature :: "'m Child list \<Rightarrow> 'm Child option" where
  "GetBestChildNoTemperature edges = GetBestChild_loop edges None"

definition five_children :: "nat Child list" where
  "five_children =
     [\<lparr>child_move = 10, child_n = 3, child_q = 0.9\<rparr>,
      \<lparr>child_move = 11, child_n = 5, child_q = 0.2\<rparr>,
      \<lparr>child_move = 12, child_n = 5, child_q = 0.4\<rparr>,
      \<lparr>child_move = 13, child_n = 5, child_q = 0.4\<rparr>,
      \<lparr>child_move = 14, child_n = 0, child_q = 0\<rparr>]"

section \<open>Properties of the registry\<close>

lemma Create_loop_first:
  "fs = pre @ f # post \<Longrightarrow> \<forall>g \<in> set pre. name g \<noteq> network \<Longrightarrow> name f = network \<Longrightarrow>
   Create_loop fs network weights options = Inr (factory f weights options)"
  by (induction pre arbitrary: fs) auto

lemma Create_loop_unknown:
  "\<forall>g \<in> set fs. name g \<noteq> network \<Longrightarrow>
   Create_loop fs network weights options = Inl (Exception (''Unknown backend: '' @ network))"
  by (induction fs) auto

lemma Create_loop_find:
  "Create_loop fs network weights options =
     (case find (\<lambda>f. name f = network) fs of
        Some f \<Rightarrow> Inr (factory f weights options)
      | None \<Rightarrow> Inl (Exception (''Unknown backend: '' @ network)))"
  by (induction fs) auto

lemma set_sort_insert: "set (sort_insert lt x xs) = insert x (set xs)"
  by (induction xs) auto

lemma mset_sort_insert: "mset (sort_insert lt x xs) = add_mset x (mset xs)"
  by (induction xs) auto

lemma mset_std_sort: "mset (std_sort lt xs) = mset xs"
  by (induction xs) (auto simp: mset_sort_insert)

lemma length_std_sort: "length (std_sort lt xs) = length xs"
proof -
  have "size (mset (std_sort lt xs)) = size (mset xs)"
    by (simp add: mset_std_sort)
  then show ?thesis by simp
qed

lemma strict_weak_orderD:
  assumes "strict_weak_order lt"
  shows "\<not> lt a a" and "lt a b \<Longrightarrow> lt b c \<Longrightarrow> lt a c" and "lt a b \<Longrightarrow> \<not> lt b a"
proof -
  from assms show irr: "\<not> lt a a" for a
    unfolding strict_weak_order_def by blast
  from assms show tr: "lt a b \<Longrightarrow> lt b c \<Longrightarrow> lt a c" for a b c
    unfolding strict_weak_order_def by blast
  show "lt a b \<Longrightarrow> \<not> lt b a"
    using irr tr by blast
qed

lemma is_sorted_sort_insert:
  assumes swo: "strict_weak_order lt"
  shows "is_sorted lt xs \<Longrightarrow> is_sorted lt (sort_insert lt x xs)"
proof (induction xs)
  case Nil
  then show ?case by (simp add: is_sorted_def)
next
  case (Cons y ys)
  show ?case
  proof (cases "lt x y")
    case True
    have "\<not> lt z x" if "z \<in> set (y # ys)" for z
    proof
      assume zx: "lt z x"
      then have "lt z y" using True strict_weak_orderD(2) [OF swo] by blast
      moreover have "z = y \<or> \<not> lt z y"
        using that Cons.prems by (auto simp: is_sorted_def)
      ultimately show False using strict_weak_orderD(1) [OF swo] by blast
    qed
    with True Cons.prems show ?thesis by (auto simp: is_sorted_def)
  next
    case False
    with Cons show ?thesis by (auto simp: is_sorted_def set_sort_insert)
  qed
qed

lemma is_sorted_std_sort:
  "strict_weak_order lt \<Longrightarrow> is_sorted lt (std_sort lt xs)"
proof (induction xs)
  case Nil
  then show ?case by (simp add: is_sorted_def)
next
  case (Cons x xs)
  then show ?case by (simp add: is_sorted_sort_insert)
qed

lemma GetBackendsList_loop_map:
  "GetBackendsList_loop xs result = result @ map name xs"
  by (induction xs arbitrary: result) auto

lemma GetBackendsList_map: "GetBackendsList nf = map name (factories nf)"
  by (simp add: GetBackendsList_def GetBackendsList_loop_map)

lemma by_priority_then_name_strict_weak_order:
  "strict_weak_order (by_priority_then_name :: ('w, 'o, 'n) Factory \<Rightarrow> _)"
  unfolding strict_weak_order_def by_priority_then_name_def
  by (intro conjI allI impI) auto

text \<open>
  C9. For every registry and every request, \<open>Create\<close> returns what the first entry of
  \<open>factories\<close> whose name equals the requested one builds from the weights and the
  options; when no entry has that name it throws the exception with the message
  \<^verbatim>\<open>"Unknown backend: "\<close> followed by the requested name. In both cases the registry after
  the call is the registry before it.
\<close>

theorem Create_first_match_or_unknown:
  "(factories nf = pre @ f # post \<and> (\<forall>g \<in> set pre. name g \<noteq> network) \<and> name f = network \<longrightarrow>
      Create nf network weights options =
        (''Creating backend ['' @ network @ '']...'' @ [CHR 0x0A], Inr (factory f weights options), nf)) \<and>
   ((\<forall>g \<in> set (factories nf). name g \<noteq> network) \<longrightarrow>
      Create nf network weights options =
        (''Creating backend ['' @ network @ '']...'' @ [CHR 0x0A],
         Inl (Exception (''Unknown backend: '' @ network)), nf))"
proof (intro conjI impI)
  assume "factories nf = pre @ f # post \<and> (\<forall>g \<in> set pre. name g \<noteq> network) \<and> name f = network"
  then have "Create_loop (factories nf) network weights options = Inr (factory f weights options)"
    using Create_loop_first [of "factories nf" pre f post network] by blast
  then show "Create nf network weights options =
        (''Creating backend ['' @ network @ '']...'' @ [CHR 0x0A], Inr (factory f weights options), nf)"
    by (simp add: Create_def)
next
  assume "\<forall>g \<in> set (factories nf). name g \<noteq> network"
  then have "Create_loop (factories nf) network weights options =
      Inl (Exception (''Unknown backend: '' @ network))"
    by (rule Create_loop_unknown)
  then show "Create nf network weights options =
        (''Creating backend ['' @ network @ '']...'' @ [CHR 0x0A],
         Inl (Exception (''Unknown backend: '' @ network)), nf)"
    by (simp add: Create_def)
qed

theorem Create_first_match_or_unknown_witness:
  "Create three_backends ''blas'' 6 7 = (''Creating backend [blas]...'' @ [CHR 0x0A], Inr 42, three_backends) \<and>
   Create three_backends ''opencl'' 6 7 =
     (''Creating backend [opencl]...'' @ [CHR 0x0A],
      Inl (Exception ''Unknown backend: opencl''), three_backends)"
proof -
  let ?cudnn = "\<lparr>name = ''cudnn'', factory = (\<lambda>w opts. w + opts), priority = 100\<rparr> :: (nat, nat, nat) Factory"
  let ?blas = "\<lparr>name = ''blas'', factory = (\<lambda>w opts. w * opts), priority = 50\<rparr> :: (nat, nat, nat) Factory"
  let ?blas2 = "\<lparr>name = ''blas'', factory = (\<lambda>w opts. 0), priority = 50\<rparr> :: (nat, nat, nat) Factory"
  have found: "factories three_backends = [?cudnn] @ ?blas # [?blas2] \<and>
      (\<forall>g \<in> set [?cudnn]. name g \<noteq> ''blas'') \<and> name ?blas = ''blas''"
    by (simp add: three_backends_def)
  have absent: "\<forall>g \<in> set (factories three_backends). name g \<noteq> ''opencl''"
    by (simp add: three_backends_def)
  from found
    Create_first_match_or_unknown [of three_backends "[?cudnn]" ?blas "[?blas2]" "''blas''" 6 7]
  have "Create three_backends ''blas'' 6 7 = (''Creating backend [blas]...'' @ [CHR 0x0A], Inr 42, three_backends)"
    by simp
  moreover from absent
    Create_first_match_or_unknown [of three_backends _ _ _ "''opencl''" 6 7]
  have "Create three_backends ''opencl'' 6 7 =
     (''Creating backend [opencl]...'' @ [CHR 0x0A],
      Inl (Exception ''Unknown backend: opencl''), three_backends)"
    by simp
  ultimately show ?thesis by simp
qed

text \<open>
  C10. After a call of \<open>RegisterNetwork\<close>, from whatever registry, the vector is sorted
  under the comparison of entries and holds the entries it held before together with the
  new one; \<open>GetBackendsList\<close> then returns the names of the entries of the vector, one for
  each and in the order of the vector, so one more name than the registry had entries.
  The comparison is required to be a strict weak ordering, as \<^verbatim>\<open>std::sort\<close> requires.
\<close>

theorem RegisterNetwork_sorted_GetBackendsList:
  assumes "strict_weak_order lt"
  shows "is_sorted lt (factories (RegisterNetwork lt nf nm fn prio)) \<and>
         mset (factories (RegisterNetwork lt nf nm fn prio)) =
           add_mset \<lparr>name = nm, factory = fn, priority = prio\<rparr> (mset (factories nf)) \<and>
         GetBackendsList (RegisterNetwork lt nf nm fn prio) =
           map name (factories (RegisterNetwork lt nf nm fn prio)) \<and>
         length (GetBackendsList (RegisterNetwork lt nf nm fn prio)) = Suc (length (factories nf))"
proof (intro conjI)
  show "is_sorted lt (factories (RegisterNetwork lt nf nm fn prio))"
    using assms by (simp add: RegisterNetwork_def is_sorted_std_sort)
  show "mset (factories (RegisterNetwork lt nf nm fn prio)) =
           add_mset \<lparr>name = nm, factory = fn, priority = prio\<rparr> (mset (factories nf))"
    by (simp add: RegisterNetwork_def mset_std_sort)
  show "GetBackendsList (RegisterNetwork lt nf nm fn prio) =
           map name (factories (RegisterNetwork lt nf nm fn prio))"
    by (rule GetBackendsList_map)
  show "length (GetBackendsList (RegisterNetwork lt nf nm fn prio)) = Suc (length (factories nf))"
    by (simp add: GetBackendsList_map RegisterNetwork_def length_std_sort)
qed

theorem RegisterNetwork_sorted_GetBackendsList_witness:
  "strict_weak_order (by_priority_then_name :: (nat, nat, nat) Factory \<Rightarrow> _) \<and>
   GetBackendsList (RegisterNetwork by_priority_then_name three_backends ''check'' (\<lambda>w opts. w) 75) =
     [''cudnn'', ''check'', ''blas'', ''blas''] \<and>
   is_sorted by_priority_then_name
     (factories (RegisterNetwork by_priority_then_name three_backends ''check'' (\<lambda>w opts. w) 75))"
proof -
  have swo: "strict_weak_order (by_priority_then_name :: (nat, nat, nat) Factory \<Rightarrow> _)"
    by (rule by_priority_then_name_strict_weak_order)
  have "GetBackendsList (RegisterNetwork by_priority_then_name three_backends ''check'' (\<lambda>w opts. w) 75) =
     [''cudnn'', ''check'', ''blas'', ''blas'']"
    by (simp add: GetBackendsList_def RegisterNetwork_def three_backends_def
        by_priority_then_name_def)
  with swo
    RegisterNetwork_sorted_GetBackendsList [OF swo, of three_backends "''check''" "\<lambda>w opts. w" 75]
  show ?thesis by simp
qed

section \<open>Properties of the search limits and parameters\<close>

text \<open>
  C8. A default-constructed \<open>SearchLimits\<close> has \<open>visits\<close>, \<open>playouts\<close> and \<open>time_ms\<close> equal
  to -1, \<open>infinite\<close> false and no search moves; whatever the playouts made, the visits the
  root started with and the time elapsed, none of the visits, playouts and time limits
  counts as reached for it.
\<close>

theorem SearchLimits_default_no_limit_reached:
  "sint (visits (SearchLimits_default :: 'm SearchLimits)) = - 1 \<and>
   sint (playouts (SearchLimits_default :: 'm SearchLimits)) = - 1 \<and>
   sint (time_ms (SearchLimits_default :: 'm SearchLimits)) = - 1 \<and>
   infinite' (SearchLimits_default :: 'm SearchLimits) = False \<and>
   searchmoves (SearchLimits_default :: 'm SearchLimits) = [] \<and>
   \<not> visits_limit_reached (SearchLimits_default :: 'm SearchLimits) total_playouts initial_visits \<and>
   \<not> playouts_limit_reached (SearchLimits_default :: 'm SearchLimits) total_playouts \<and>
   \<not> time_limit_reached (SearchLimits_default :: 'm SearchLimits) elapsed_ms"
  by (simp add: SearchLimits_default_def visits_limit_reached_def playouts_limit_reached_def
      time_limit_reached_def)

text \<open>
  C7. The option \<open>CacheHistoryLength\<close> is a number of prior plies, and a value above 1
  should bring more plies into the cache key than the value 1. The member that keeps it
  is a \<open>bool\<close>: the values 2 and 7 are stored as the value 1 is, and every value reads back
  as 0 or 1.
\<close>

theorem kCacheHistoryLength_above_1_is_1:
  "kCacheHistoryLength 2 = kCacheHistoryLength 1 \<and>
   bool_as_number (kCacheHistoryLength 2) = 1 \<and>
   bool_as_number (kCacheHistoryLength 7) = 1 \<and>
   bool_as_number (kCacheHistoryLength v) \<in> {0, 1}"
  by (simp add: kCacheHistoryLength_def bool_as_number_def)

section \<open>Properties of the best-child selection\<close>

lemma better_child_trans: "better_child a b \<Longrightarrow> better_child b c \<Longrightarrow> better_child a c"
  by (auto simp: better_child_def)

lemma better_child_irrefl: "\<not> better_child a a"
  by (simp add: better_child_def)

lemma better_child_asym: "better_child a b \<Longrightarrow> \<not> better_child b a"
  by (auto simp: better_child_def)

lemma not_better_child_iff:
  "\<not> better_child c r \<longleftrightarrow>
     child_n c \<le> child_n r \<and> (child_n c = child_n r \<longrightarrow> child_q c \<le> child_q r)"
  by (auto simp: better_child_def)

lemma better_child_not_tied:
  "better_child r c \<Longrightarrow> \<not> (child_n c = child_n r \<and> child_q c = child_q r)"
  by (auto simp: better_child_def)

lemma better_child_over: "better_child a b \<Longrightarrow> \<not> better_child c b \<Longrightarrow> better_child a c"
  by (auto simp: better_child_def)

lemma GetBestChild_loop_split:
  "\<exists>pre r post. GetBestChild_loop cs (Some b) = Some r \<and> b # cs = pre @ r # post \<and>
     (\<forall>x \<in> set pre. better_child r x) \<and> (\<forall>x \<in> set post. \<not> better_child x r)"
proof (induction cs arbitrary: b)
  case Nil
  have "GetBestChild_loop [] (Some b) = Some b \<and> [b] = [] @ b # [] \<and>
     (\<forall>x \<in> set []. better_child b x) \<and> (\<forall>x \<in> set []. \<not> better_child x b)"
    by simp
  then show ?case by blast
next
  case (Cons c cs)
  show ?case
  proof (cases "better_child c b")
    case True
    from Cons.IH [of c] obtain pre r post where
      res: "GetBestChild_loop cs (Some c) = Some r" and
      split: "c # cs = pre @ r # post" and
      before: "\<forall>x \<in> set pre. better_child r x" and
      after: "\<forall>x \<in> set post. \<not> better_child x r"
      by blast
    have rb: "better_child r b"
    proof (cases pre)
      case Nil
      with split have "r = c" by simp
      with True show ?thesis by simp
    next
      case (Cons p ps)
      with split have "p = c" by simp
      with Cons before have "better_child r c" by simp
      with True show ?thesis by (blast intro: better_child_trans)
    qed
    have "GetBestChild_loop (c # cs) (Some b) = Some r"
      using True res by simp
    moreover have "b # c # cs = (b # pre) @ r # post"
      using split by simp
    moreover have "\<forall>x \<in> set (b # pre). better_child r x"
      using rb before by simp
    ultimately show ?thesis using after by blast
  next
    case False
    from Cons.IH [of b] obtain pre r post where
      res: "GetBestChild_loop cs (Some b) = Some r" and
      split: "b # cs = pre @ r # post" and
      before: "\<forall>x \<in> set pre. better_child r x" and
      after: "\<forall>x \<in> set post. \<not> better_child x r"
      by blast
    have run: "GetBestChild_loop (c # cs) (Some b) = Some r"
      using False res by simp
    show ?thesis
    proof (cases pre)
      case Nil
      with split have rb: "r = b" and post: "post = cs" by simp_all
      have "b # c # cs = [] @ r # (c # post)"
        using rb post by simp
      moreover have "\<forall>x \<in> set (c # post). \<not> better_child x r"
        using after False rb by simp
      moreover have "\<forall>x \<in> set []. better_child r x"
        by simp
      ultimately show ?thesis using run by blast
    next
      case (Cons p ps)
      with split have p: "p = b" and cs: "cs = ps @ r # post" by simp_all
      from Cons before p have "better_child r b" by simp
      then have "better_child r c" using False by (rule better_child_over)
      with before Cons p have "\<forall>x \<in> set (b # c # ps). better_child r x" by simp
      moreover have "b # c # cs = (b # c # ps) @ r # post"
        using cs by simp
      ultimately show ?thesis using run after by blast
    qed
  qed
qed


text \<open>
  C5. For a parent with at least one visited child, \<open>GetBestChildNoTemperature\<close> returns
  a visited child \<open>r\<close> of the parent such that no child has more visits than \<open>r\<close>, no child
  with as many visits has a higher \<open>q\<close>, and no child standing before \<open>r\<close> in edge order
  has both the visits and the \<open>q\<close> of \<open>r\<close>.
\<close>

theorem GetBestChildNoTemperature_most_visits:
  assumes "\<exists>c \<in> set edges. 0 < child_n c"
  shows "\<exists>pre r post. GetBestChildNoTemperature edges = Some r \<and> edges = pre @ r # post \<and>
     0 < child_n r \<and>
     (\<forall>c \<in> set edges. child_n c \<le> child_n r) \<and>
     (\<forall>c \<in> set edges. child_n c = child_n r \<longrightarrow> child_q c \<le> child_q r) \<and>
     (\<forall>c \<in> set pre. \<not> (child_n c = child_n r \<and> child_q c = child_q r))"
proof -
  from assms obtain e es where edges: "edges = e # es"
    by (cases edges) auto
  from GetBestChild_loop_split [of es e] obtain pre r post where
    res: "GetBestChild_loop es (Some e) = Some r" and
    split: "e # es = pre @ r # post" and
    before: "\<forall>x \<in> set pre. better_child r x" and
    after: "\<forall>x \<in> set post. \<not> better_child x r"
    by blast
  have run: "GetBestChildNoTemperature edges = Some r"
    using res edges by (simp add: GetBestChildNoTemperature_def)
  have "set edges = set (pre @ r # post)"
    by (simp only: edges split)
  then have sets: "set edges = set pre \<union> insert r (set post)"
    by simp
  have best: "\<not> better_child c r" if "c \<in> set edges" for c
  proof -
    from that sets have "c \<in> set pre \<or> c = r \<or> c \<in> set post" by blast
    then show ?thesis
      using before after better_child_irrefl better_child_asym by blast
  qed
  have most: "\<forall>c \<in> set edges. child_n c \<le> child_n r"
    using best not_better_child_iff by blast
  have ties: "\<forall>c \<in> set edges. child_n c = child_n r \<longrightarrow> child_q c \<le> child_q r"
    using best not_better_child_iff by blast
  have first: "\<forall>c \<in> set pre. \<not> (child_n c = child_n r \<and> child_q c = child_q r)"
    using before better_child_not_tied by blast
  from assms obtain v where "v \<in> set edges" and "0 < child_n v"
    by blast
  moreover from this most have "child_n v \<le> child_n r"
    by blast
  ultimately have visited: "0 < child_n r"
    by simp
  have "GetBestChildNoTemperature edges = Some r \<and> edges = pre @ r # post \<and>
     0 < child_n r \<and>
     (\<forall>c \<in> set edges. child_n c \<le> child_n r) \<and>
     (\<forall>c \<in> set edges. child_n c = child_n r \<longrightarrow> child_q c \<le> child_q r) \<and>
     (\<forall>c \<in> set pre. \<not> (child_n c = child_n r \<and> child_q c = child_q r))"
    using run visited most ties first by (simp add: edges split)
  then show ?thesis
    by (intro exI)
qed

theorem GetBestChildNoTemperature_most_visits_witness:
  "(\<exists>c \<in> set five_children. 0 < child_n c) \<and>
   GetBestChildNoTemperature five_children = Some \<lparr>child_move = 12, child_n = 5, child_q = 0.4\<rparr>"
proof -
  have visited: "\<exists>c \<in> set five_children. 0 < child_n c"
    by (simp add: five_children_def)
  have "GetBestChildNoTemperature five_children =
      Some \<lparr>child_move = 12, child_n = 5, child_q = 0.4\<rparr>"
    by (simp add: GetBestChildNoTemperature_def five_children_def better_child_def)
  with visited GetBestChildNoTemperature_most_visits [OF visited] show ?thesis by simp
qed

end
